theory Spec2Isabelle
  imports Main
begin

section \<open>Values and the JSON wire format\<close>

text \<open>
  Go's \<^verbatim>\<open>interface{}\<close> values, as far as the package handles them: the data a handler
  hands to \<^verbatim>\<open>Success\<close>, the values of the per-request store, the arguments of the
  logger and the value carried by a panic. \<open>VNil\<close> is the nil interface.
  \<open>VSlice\<close> is a \<^verbatim>\<open>[]interface{}\<close> that is not nil; \<open>VStruct\<close> is a struct value, given by
  the name of its type and its exported fields in declaration order, each under its
  JSON key. \<open>VNilSlice\<close>, \<open>VNilMap\<close> and \<open>VNilPtr\<close> are the typed nils: a nil
  \<^verbatim>\<open>[]interface{}\<close>, a nil \<^verbatim>\<open>map[string]interface{}\<close> and a nil pointer to the named
  struct type, held in an interface that is therefore not nil itself.
  \<open>VUnsupported\<close> stands for a value \<^verbatim>\<open>encoding/json\<close> refuses (a channel, a function,
  a complex number); it carries the name of its type and the text \<^verbatim>\<open>%v\<close> prints for it.
\<close>

datatype val =
    VNil
  | VBool bool
  | VInt int
  | VStr string
  | VSlice "val list"
  | VStruct string "(string \<times> val) list"
  | VNilSlice
  | VNilMap
  | VNilPtr string
  | VUnsupported string string

text \<open>
  What \<^verbatim>\<open>encoding/json\<close> writes, as a tree: an object keeps the order of its members,
  so that a member that is left out and a member that is \<^verbatim>\<open>null\<close> are different trees.
\<close>

datatype json =
    JNull
  | JBool bool
  | JNum int
  | JStr string
  | JArr "json list"
  | JObj "(string \<times> json) list"

text \<open>
  \<^verbatim>\<open>json.Marshal\<close> on such a value. \<open>Inl\<close> is the text of the error the encoder
  returns, which it does at the first unsupported value it meets. The nil interface and
  the typed nils are all written as \<^verbatim>\<open>null\<close>.
\<close>

fun sequence :: "('e + 'a) list \<Rightarrow> 'e + 'a list" where
  "sequence [] = Inr []"
| "sequence (Inl e # rs) = Inl e"
| "sequence (Inr x # rs) = (case sequence rs of Inl e \<Rightarrow> Inl e | Inr xs \<Rightarrow> Inr (x # xs))"

fun Marshal :: "val \<Rightarrow> string + json" where
  "Marshal VNil = Inr JNull"
| "Marshal (VBool b) = Inr (JBool b)"
| "Marshal (VInt n) = Inr (JNum n)"
| "Marshal (VStr s) = Inr (JStr s)"
| "Marshal (VSlice xs) =
     (case sequence (map Marshal xs) of Inl e \<Rightarrow> Inl e | Inr js \<Rightarrow> Inr (JArr js))"
| "Marshal (VStruct ty fs) =
     (case sequence (map (\<lambda>f. Marshal (snd f)) fs) of
        Inl e \<Rightarrow> Inl e
      | Inr js \<Rightarrow> Inr (JObj (zip (map fst fs) js)))"
| "Marshal VNilSlice = Inr JNull"
| "Marshal VNilMap = Inr JNull"
| "Marshal (VNilPtr ty) = Inr JNull"
| "Marshal (VUnsupported ty t) = Inl (''json: unsupported type: '' @ ty)"

subsection \<open>response.go\<close>

record APIError =
  Code :: int
  Message :: string

record Response =
  Success :: bool
  Data :: val
  Error :: "APIError option"
  Meta :: val

definition Marshal_APIError :: "APIError \<Rightarrow> json" where
  "Marshal_APIError e = JObj [(''code'', JNum (Code e)), (''message'', JStr (Message e))]"

text \<open>
  The struct tags of \<^verbatim>\<open>Response\<close>: \<^verbatim>\<open>success\<close> is always written; \<^verbatim>\<open>data\<close>, \<^verbatim>\<open>error\<close> and
  \<^verbatim>\<open>meta\<close> carry \<^verbatim>\<open>omitempty\<close>, and the empty value of an interface or pointer field is
  nil. A field that holds a value the encoder refuses makes the whole encoding fail.
\<close>

definition omitempty :: "string \<Rightarrow> val \<Rightarrow> string + (string \<times> json) list" where
  "omitempty key v =
     (if v = VNil then Inr []
      else case Marshal v of Inl e \<Rightarrow> Inl e | Inr j \<Rightarrow> Inr [(key, j)])"

definition Marshal_Response :: "Response \<Rightarrow> string + json" where
  "Marshal_Response r =
     (case omitempty ''data'' (Data r) of
        Inl e \<Rightarrow> Inl e
      | Inr d \<Rightarrow>
          (case omitempty ''meta'' (Meta r) of
             Inl e \<Rightarrow> Inl e
           | Inr m \<Rightarrow>
               Inr (JObj ([(''success'', JBool (Success r))] @ d @
                  (case Error r of None \<Rightarrow> [] | Some e \<Rightarrow> [(''error'', Marshal_APIError e)]) @ m))))"

section \<open>Formatting\<close>

text \<open>
  \<^verbatim>\<open>fmt.Sprintf\<close> on the part of the format language the package uses: literal text,
  \<^verbatim>\<open>%%\<close>, and the verbs \<^verbatim>\<open>%v\<close>, \<^verbatim>\<open>%s\<close> and \<^verbatim>\<open>%d\<close>, together with what the library
  prints for a verb that does not fit its operand, for a verb with no operand left and
  for operands left over. Flags, a width and a precision between \<^verbatim>\<open>%\<close> and the verb are
  read as the library reads them, so that the verb is found where the library finds
  it; their effect on how an operand is printed, the other verbs, \<^verbatim>\<open>*\<close> and argument
  indexes are not used by the package and are not modelled.
\<close>

definition digit :: "nat \<Rightarrow> char" where
  "digit n = ''0123456789'' ! n"

function show_nat :: "nat \<Rightarrow> string" where
  "show_nat n = (if n < 10 then [digit n] else show_nat (n div 10) @ [digit (n mod 10)])"
  by pat_completeness auto
termination
  by (relation "measure (\<lambda>n. n)") auto

declare show_nat.simps [simp del]

definition show_int :: "int \<Rightarrow> string" where
  "show_int i = (if i < 0 then CHR ''-'' # show_nat (nat (- i)) else show_nat (nat i))"

fun join :: "string \<Rightarrow> string list \<Rightarrow> string" where
  "join sep [] = []"
| "join sep [x] = x"
| "join sep (x # y # ys) = x @ sep @ join sep (y # ys)"

fun go_type :: "val \<Rightarrow> string" where
  "go_type VNil = ''<nil>''"
| "go_type (VBool b) = ''bool''"
| "go_type (VInt n) = ''int''"
| "go_type (VStr s) = ''string''"
| "go_type (VSlice xs) = ''[]interface {}''"
| "go_type (VStruct ty fs) = ty"
| "go_type VNilSlice = ''[]interface {}''"
| "go_type VNilMap = ''map[string]interface {}''"
| "go_type (VNilPtr ty) = ''*'' @ ty"
| "go_type (VUnsupported ty t) = ty"

definition bad_verb :: "char \<Rightarrow> string \<Rightarrow> string \<Rightarrow> string" where
  "bad_verb c ty txt = ''%!'' @ [c] @ ''('' @ ty @ ''='' @ txt @ '')''"

text \<open>
  One operand under one verb. \<open>inside\<close> tells whether the operand is an element of a
  slice or a field of a struct: a nil element is printed as \<^verbatim>\<open><nil>\<close> under every verb,
  a nil operand only under \<^verbatim>\<open>%v\<close>.
\<close>

fun fmt_value :: "bool \<Rightarrow> char \<Rightarrow> val \<Rightarrow> string" where
  "fmt_value inside c VNil =
     (if inside \<or> c = CHR ''v'' then ''<nil>'' else ''%!'' @ [c] @ ''(<nil>)'')"
| "fmt_value inside c (VBool b) =
     (if c = CHR ''v'' then (if b then ''true'' else ''false'')
      else bad_verb c ''bool'' (if b then ''true'' else ''false''))"
| "fmt_value inside c (VInt n) =
     (if c = CHR ''v'' \<or> c = CHR ''d'' then show_int n else bad_verb c ''int'' (show_int n))"
| "fmt_value inside c (VStr s) =
     (if c = CHR ''v'' \<or> c = CHR ''s'' then s else bad_verb c ''string'' s)"
| "fmt_value inside c (VSlice xs) = ''['' @ join '' '' (map (fmt_value True c) xs) @ '']''"
| "fmt_value inside c (VStruct ty fs) =
     ''{'' @ join '' '' (map (\<lambda>f. fmt_value True c (snd f)) fs) @ ''}''"
| "fmt_value inside c VNilSlice = ''[]''"
| "fmt_value inside c VNilMap = ''map[]''"
| "fmt_value inside c (VNilPtr ty) =
     (if c = CHR ''v'' then ''<nil>''
      else if c = CHR ''d'' then ''0''
      else bad_verb c (''*'' @ ty) ''<nil>'')"
| "fmt_value inside c (VUnsupported ty t) = (if c = CHR ''v'' then t else bad_verb c ty t)"

definition fmt_verb :: "char \<Rightarrow> val \<Rightarrow> string" where
  "fmt_verb c v = fmt_value False c v"

definition fmt_extra :: "val list \<Rightarrow> string" where
  "fmt_extra args =
     (if args = [] then []
      else ''%!(EXTRA '' @
           join '', '' (map (\<lambda>a. if a = VNil then ''<nil>'' else go_type a @ ''='' @ fmt_verb (CHR ''v'') a) args)
           @ '')'')"

text \<open>
  What stands between \<^verbatim>\<open>%\<close> and the verb: flags, then the digits of a width, then a
  point and the digits of a precision. \<open>skip_spec\<close> gives the format from the verb on.
\<close>

definition is_flag :: "char \<Rightarrow> bool" where
  "is_flag c = (c \<in> set ''#0+- '')"

definition is_digit :: "char \<Rightarrow> bool" where
  "is_digit c = (c \<in> set ''0123456789'')"

definition skip_spec :: "string \<Rightarrow> string" where
  "skip_spec s =
     (case dropWhile is_digit (dropWhile is_flag s) of
        [] \<Rightarrow> []
      | c # r \<Rightarrow> if c = CHR ''.'' then dropWhile is_digit r else c # r)"

function Sprintf :: "string \<Rightarrow> val list \<Rightarrow> string" where
  "Sprintf [] args = fmt_extra args"
| "Sprintf (c # cs) args =
     (if c \<noteq> CHR ''%'' then c # Sprintf cs args
      else (case skip_spec cs of
              [] \<Rightarrow> ''%!(NOVERB)'' @ fmt_extra args
            | v # rest \<Rightarrow>
                if v = CHR ''%'' then CHR ''%'' # Sprintf rest args
                else (case args of
                        [] \<Rightarrow> ''%!'' @ [v] @ ''(MISSING)'' @ Sprintf rest []
                      | a # as \<Rightarrow> fmt_verb v a @ Sprintf rest as)))"
  by pat_completeness auto
termination
proof -
  have skip: "length (skip_spec s) \<le> length s" for s
  proof -
    have a: "length (dropWhile is_flag s) \<le> length s"
      by (rule length_dropWhile_le)
    have b: "length (dropWhile is_digit (dropWhile is_flag s)) \<le> length (dropWhile is_flag s)"
      by (rule length_dropWhile_le)
    show ?thesis
    proof (cases "dropWhile is_digit (dropWhile is_flag s)")
      case Nil
      show ?thesis unfolding skip_spec_def Nil by simp
    next
      case (Cons c r)
      have r: "length (dropWhile is_digit r) \<le> length r"
        by (rule length_dropWhile_le)
      have len: "Suc (length r) \<le> length s"
        using a b[unfolded Cons] by simp
      have "skip_spec s = (if c = CHR ''.'' then dropWhile is_digit r else c # r)"
        by (simp add: skip_spec_def Cons)
      then show ?thesis
        using r len by simp
    qed
  qed
  have shorter: "length rest < length (c # cs)" if "skip_spec cs = v # rest" for c cs v rest
    using skip[of cs] that by simp
  show ?thesis
  proof (relation "measure (\<lambda>(format, args). length format)")
    show "wf (measure (\<lambda>(format, args). length format))"
      by simp
  qed (auto dest: shorter)
qed

section \<open>The request context\<close>

subsection \<open>Collaborators\<close>

text \<open>
  The \<^verbatim>\<open>Logger\<close> interface of logger.go is represented by the calls it has
  received, oldest first: the level and the format and arguments as the caller passed
  them. The logger is taken to be installed and to return from every call.
\<close>

datatype level = INFO | ERROR | DEBUG

type_synonym Logger = "(level \<times> string \<times> val list) list"

text \<open>
  An \<^verbatim>\<open>http.ResponseWriter\<close> is represented by the calls made on it, oldest first:
  \<^verbatim>\<open>Header().Set\<close>, \<^verbatim>\<open>WriteHeader\<close>, and the document an encoder wrote to it.
\<close>

datatype wevent =
    Header_Set string string
  | WriteHeader int
  | Write json

type_synonym ResponseWriter = "wevent list"

text \<open>
  Of an \<^verbatim>\<open>*http.Request\<close>: the method, the path, the query string as \<^verbatim>\<open>URL.Query()\<close>
  parses it (every value of a parameter, in order), and the path variables
  \<^verbatim>\<open>mux.Vars\<close> returns for it.
\<close>

record Request =
  Method :: string
  URL_Path :: string
  URL_Query :: "string \<rightharpoonup> string list"
  Vars :: "string \<rightharpoonup> string"

subsection \<open>The \<^verbatim>\<open>Context\<close> struct\<close>

text \<open>
  The field \<^verbatim>\<open>app\<close> of the source points to the application; a context reaches
  only the application's logger through it, so the model keeps that logger in its place.
\<close>

record Context =
  Writer :: ResponseWriter
  Request :: Request
  Params :: "string \<rightharpoonup> string"
  app_logger :: Logger
  store :: "string \<rightharpoonup> val"
  aborted :: bool

text \<open>
  How a call ends. It returns, or it panics: \<open>Panic v\<close> is a panic on the calling
  goroutine whose \<^verbatim>\<open>recover()\<close> value is \<open>v\<close>. Or a goroutine that the call has
  started panics and has no deferred \<^verbatim>\<open>recover\<close>: then the Go runtime ends the
  process, and nothing more is run, no deferred function of the calling goroutine
  either; \<open>Crash v\<close> is this end, with the value of the panic. The context a handler was
  given is shared by reference, so whatever was done to it up to that point is kept.
\<close>

datatype outcome = Normal | Panic val | Crash val

type_synonym HandlerFunc = "Context \<Rightarrow> outcome \<times> Context"

type_synonym Middleware = "HandlerFunc \<Rightarrow> HandlerFunc"

subsection \<open>Key/value store\<close>

definition Context_Set :: "Context \<Rightarrow> string \<Rightarrow> val \<Rightarrow> Context" where
  "Context_Set c key value = c\<lparr>store := (store c)(key \<mapsto> value)\<rparr>"

definition Context_Get :: "Context \<Rightarrow> string \<Rightarrow> (val \<times> bool) \<times> Context" where
  "Context_Get c key =
     ((case store c key of Some v \<Rightarrow> (v, True) | None \<Rightarrow> (VNil, False)), c)"

text \<open>\<open>Inl\<close> is the value the call panics with, \<open>Inr\<close> the value it returns.\<close>

definition Context_MustGet :: "Context \<Rightarrow> string \<Rightarrow> (val + val) \<times> Context" where
  "Context_MustGet c key =
     (case Context_Get c key of
        ((v, exists), c') \<Rightarrow>
          if exists then (Inr v, c')
          else (Inl (VStr (Sprintf ''Key %s does not exist in context'' [VStr key])), c'))"

subsection \<open>Path and query parameters\<close>

definition Context_GetParam :: "Context \<Rightarrow> string \<Rightarrow> string \<times> Context" where
  "Context_GetParam c name = ((case Params c name of Some v \<Rightarrow> v | None \<Rightarrow> []), c)"

text \<open>\<^verbatim>\<open>url.Values.Get\<close>: the first value of the key, or the empty string.\<close>

definition Values_Get :: "(string \<rightharpoonup> string list) \<Rightarrow> string \<Rightarrow> string" where
  "Values_Get vs key = (case vs key of None \<Rightarrow> [] | Some [] \<Rightarrow> [] | Some (v # _) \<Rightarrow> v)"

definition Context_Query :: "Context \<Rightarrow> string \<Rightarrow> string \<times> Context" where
  "Context_Query c name = (Values_Get (URL_Query (Request c)) name, c)"

definition Context_QueryDefault :: "Context \<Rightarrow> string \<Rightarrow> string \<Rightarrow> string \<times> Context" where
  "Context_QueryDefault c name defaultValue =
     (case Context_Query c name of
        (value, c') \<Rightarrow> if value \<noteq> [] then (value, c') else (defaultValue, c'))"

subsection \<open>Abort flag\<close>

definition Context_Abort :: "Context \<Rightarrow> Context" where
  "Context_Abort c = c\<lparr>aborted := True\<rparr>"

definition Context_IsAborted :: "Context \<Rightarrow> bool \<times> Context" where
  "Context_IsAborted c = (aborted c, c)"

subsection \<open>Responses\<close>

text \<open>
  What \<^verbatim>\<open>JSON\<close> is given to encode: one of the package's \<^verbatim>\<open>Response\<close> envelopes, or
  any other value.
\<close>

datatype body = Envelope Response | Plain val

fun Encode :: "body \<Rightarrow> string + json" where
  "Encode (Envelope r) = Marshal_Response r"
| "Encode (Plain v) = Marshal v"

definition Logger_Error :: "Context \<Rightarrow> string \<Rightarrow> val list \<Rightarrow> Context" where
  "Logger_Error c format args = c\<lparr>app_logger := app_logger c @ [(ERROR, format, args)]\<rparr>"

definition Logger_Info :: "Context \<Rightarrow> string \<Rightarrow> val list \<Rightarrow> Context" where
  "Logger_Info c format args = c\<lparr>app_logger := app_logger c @ [(INFO, format, args)]\<rparr>"

definition Logger_Debug :: "Context \<Rightarrow> string \<Rightarrow> val list \<Rightarrow> Context" where
  "Logger_Debug c format args = c\<lparr>app_logger := app_logger c @ [(DEBUG, format, args)]\<rparr>"

text \<open>
  \<^verbatim>\<open>JSON\<close> sets the content type, writes the status line and encodes. When the encoder
  returns an error nothing has reached the body, and the error is logged.
\<close>

definition Context_JSON :: "Context \<Rightarrow> int \<Rightarrow> body \<Rightarrow> Context" where
  "Context_JSON c status data =
     (let c1 = c\<lparr>Writer := Writer c @ [Header_Set ''Content-Type'' ''application/json'']\<rparr>;
          c2 = c1\<lparr>Writer := Writer c1 @ [WriteHeader status]\<rparr>
      in case Encode data of
           Inr j \<Rightarrow> c2\<lparr>Writer := Writer c2 @ [Write j]\<rparr>
         | Inl err \<Rightarrow> Logger_Error c2 ''Error encoding JSON: %v'' [VStr err])"

definition Context_Success :: "Context \<Rightarrow> val \<Rightarrow> Context" where
  "Context_Success c data =
     (let response = \<lparr>Success = True, Data = data, Error = None, Meta = VNil\<rparr>
      in Context_JSON c 200 (Envelope response))"

definition Context_Error :: "Context \<Rightarrow> int \<Rightarrow> string \<Rightarrow> val list \<Rightarrow> Context" where
  "Context_Error c status message args =
     (let formattedMessage = Sprintf message args;
          response = \<lparr>Success = False, Data = VNil,
                      Error = Some \<lparr>Code = status, Message = formattedMessage\<rparr>, Meta = VNil\<rparr>
      in Context_JSON c status (Envelope response))"

definition Context_WithMeta :: "Context \<Rightarrow> val \<Rightarrow> val \<Rightarrow> Context" where
  "Context_WithMeta c data meta =
     (let response = \<lparr>Success = True, Data = data, Error = None, Meta = meta\<rparr>
      in Context_JSON c 200 (Envelope response))"

definition Context_LogRequest :: "Context \<Rightarrow> Context" where
  "Context_LogRequest c =
     Logger_Info c ''%s %s'' [VStr (Method (Request c)), VStr (URL_Path (Request c))]"

section \<open>Built-in middleware\<close>

text \<open>
  \<^verbatim>\<open>RecoverMiddleware\<close>: the deferred function runs when \<open>next\<close> has returned or
  panicked. \<^verbatim>\<open>recover()\<close> stops the panic in either branch of the test; the value it
  returns is nil when nothing panicked (and, before Go 1.21, after \<^verbatim>\<open>panic(nil)\<close>).
\<close>

definition RecoverMiddleware :: Middleware where
  "RecoverMiddleware next c =
     (case next c of
        (Normal, c') \<Rightarrow> (Normal, c')
      | (Panic r, c') \<Rightarrow>
          if r \<noteq> VNil
          then (Normal,
                Context_Error (Logger_Error c' ''Panic recovered: %v'' [r])
                  500 ''Internal Server Error'' [])
          else (Normal, c')
      | (Crash v, c') \<Rightarrow> (Crash v, c'))"


section \<open>Router, application and groups\<close>

text \<open>
  What the transport calls for a matched route: it is given the application's logger
  as it is when the request arrives, the response writer and the request, and gives
  back how the call ended together with the request's context as it was left; the
  \<open>Writer\<close> and \<open>app_logger\<close> of that context are what the call did to the response and
  to the log.
\<close>

type_synonym http_HandlerFunc = "Logger \<Rightarrow> ResponseWriter \<Rightarrow> Request \<Rightarrow> outcome \<times> Context"

text \<open>
  A route of the \<^verbatim>\<open>gorilla/mux\<close> router: its path template, the method matchers added
  to it, its handler, and whether the router refused one of its templates. A template
  that is not empty must start with a slash; a route with a refused template, or below
  a refused prefix, matches no request. \<^verbatim>\<open>Methods\<close> adds one matcher and stores the
  names it is given in upper case; a request passes a method matcher when its method
  is one of the stored names, and a route with no method matcher puts no condition on
  the method.
\<close>

record mux_Route =
  route_path :: string
  method_matchers :: "string list list"
  route_handler :: http_HandlerFunc
  route_err :: bool

text \<open>\<^verbatim>\<open>strings.ToUpper\<close> on ASCII text, which the names of HTTP methods are.\<close>

definition to_upper :: "char \<Rightarrow> char" where
  "to_upper c =
     (case map_of (zip ''abcdefghijklmnopqrstuvwxyz'' ''ABCDEFGHIJKLMNOPQRSTUVWXYZ'') c of
        Some u \<Rightarrow> u
      | None \<Rightarrow> c)"

definition ToUpper :: "string \<Rightarrow> string" where
  "ToUpper s = map to_upper s"

text \<open>\<^verbatim>\<open>strings.TrimRight(s, "/")\<close>.\<close>

definition TrimRight_slash :: "string \<Rightarrow> string" where
  "TrimRight_slash s = rev (dropWhile (\<lambda>c. c = CHR ''/'') (rev s))"

definition refused_template :: "string \<Rightarrow> bool" where
  "refused_template tpl = (case tpl of [] \<Rightarrow> False | c # _ \<Rightarrow> c \<noteq> CHR ''/'')"

text \<open>
  \<^verbatim>\<open>HandleFunc\<close> on the subrouter of the prefix \<open>pre\<close>: the template of the new route is
  the prefix without its trailing slashes, followed by the path.
\<close>

definition mux_HandleFunc :: "string \<Rightarrow> string \<Rightarrow> http_HandlerFunc \<Rightarrow> mux_Route" where
  "mux_HandleFunc pre path f =
     \<lparr>route_path = TrimRight_slash pre @ path, method_matchers = [], route_handler = f,
      route_err = (refused_template pre \<or> refused_template path)\<rparr>"

definition mux_Methods :: "string list \<Rightarrow> mux_Route \<Rightarrow> mux_Route" where
  "mux_Methods methods r = r\<lparr>method_matchers := method_matchers r @ [map ToUpper methods]\<rparr>"

definition matches_method :: "mux_Route \<Rightarrow> string \<Rightarrow> bool" where
  "matches_method r m = list_all (\<lambda>names. m \<in> set names) (method_matchers r)"

subsection \<open>app.go\<close>

text \<open>
  The application: its middleware list and the routes registered on its router, in
  the order of registration. Its logger is the one a request is served with.
\<close>

record App =
  middlewares :: "Middleware list"
  router :: "mux_Route list"

definition New :: App where
  "New = \<lparr>middlewares = [], router = []\<rparr>"

definition App_Use :: "App \<Rightarrow> Middleware list \<Rightarrow> App" where
  "App_Use a middleware = a\<lparr>middlewares := middlewares a @ middleware\<rparr>"

subsection \<open>group.go\<close>

text \<open>
  A group: the path prefix of its subrouter and its own middleware list. Its parent
  is the application, which the operations below are given next to the group.
\<close>

record Group =
  prefix :: string
  g_middlewares :: "Middleware list"

definition App_Group :: "App \<Rightarrow> string \<Rightarrow> Group" where
  "App_Group a path = \<lparr>prefix = path, g_middlewares = []\<rparr>"

definition Group_Use :: "Group \<Rightarrow> Middleware list \<Rightarrow> Group" where
  "Group_Use g middleware = g\<lparr>g_middlewares := g_middlewares g @ middleware\<rparr>"

subsection \<open>Slices\<close>

text \<open>
  The middleware lists of the source are Go slices. A slice is a window on a backing
  array: the array's address, the length of the window and its capacity. The memory is
  the content of every array together with the next unused address. \<^verbatim>\<open>append\<close> writes
  into the slice's own array when the capacity suffices, beyond the length of the
  slice, and otherwise copies the window to a new array; \<open>grow\<close> is the capacity the
  runtime chooses for a new array.
\<close>

record slice =
  base :: nat
  len :: nat
  cap :: nat

definition elems :: "(nat \<Rightarrow> 'a list) \<Rightarrow> slice \<Rightarrow> 'a list" where
  "elems M s = take (len s) (M (base s))"

definition go_append ::
  "(nat \<Rightarrow> nat \<Rightarrow> nat) \<Rightarrow> (nat \<Rightarrow> 'a list) \<times> nat \<Rightarrow> slice \<Rightarrow> 'a list
     \<Rightarrow> ((nat \<Rightarrow> 'a list) \<times> nat) \<times> slice" where
  "go_append grow mem s xs =
     (let M = fst mem; fresh = snd mem; n = len s + length xs
      in if n \<le> cap s
         then ((M(base s := take (len s) (M (base s)) @ xs @ drop n (M (base s))), fresh),
               s\<lparr>len := n\<rparr>)
         else ((M(fresh := take (len s) (M (base s)) @ xs), Suc fresh),
               \<lparr>base = fresh, len = n, cap = grow (cap s) n\<rparr>))"

text \<open>
  The lists \<open>middlewares\<close> of an application and \<open>g_middlewares\<close> of a group are the
  elements of their slices. The lemmas \<open>go_append_elems\<close> and \<open>go_append_keeps\<close> show that
  \<^verbatim>\<open>append\<close> reads as list concatenation and leaves the elements of the slice it was
  given, and of every slice on another array, as they were.
\<close>

text \<open>
  The loop of \<^verbatim>\<open>wrapHandler\<close>, \<^verbatim>\<open>for i := len(middlewares) - 1; i >= 0; i--\<close>, from the
  index \<open>i\<close> it has reached. The index stays within the slice: it starts at the last
  element and stops below zero.
\<close>

function wrap_loop :: "Middleware list \<Rightarrow> int \<Rightarrow> HandlerFunc \<Rightarrow> HandlerFunc" where
  "wrap_loop mws i h = (if i \<ge> 0 then wrap_loop mws (i - 1) ((mws ! nat i) h) else h)"
  by pat_completeness auto
termination
  by (relation "measure (\<lambda>(mws, i, h). nat (i + 1))") auto

declare wrap_loop.simps [simp del]

text \<open>
  \<^verbatim>\<open>append(g.parent.middlewares, g.middlewares...)\<close> may write the group's elements into
  spare capacity of the application's backing array, beyond the application's length.
  The slice it returns is read by the loop before anything else runs and is not kept;
  its elements are those of the application's slice followed by those of the group's.
\<close>

definition wrapHandler_middlewares :: "App \<Rightarrow> Group \<Rightarrow> Middleware list" where
  "wrapHandler_middlewares a g = middlewares a @ g_middlewares g"

text \<open>The handler \<^verbatim>\<open>h\<close> that \<^verbatim>\<open>wrapHandler\<close> has built when its loop ends.\<close>

definition wrapHandler_h :: "App \<Rightarrow> Group \<Rightarrow> HandlerFunc \<Rightarrow> HandlerFunc" where
  "wrapHandler_h a g handler =
     (let mws = wrapHandler_middlewares a g
      in wrap_loop mws (int (length mws) - 1) handler)"

text \<open>
  The function \<^verbatim>\<open>wrapHandler\<close> returns. It holds \<^verbatim>\<open>h\<close> as built at the call; the
  deferred function is the one of \<open>RecoverMiddleware\<close>, on the application's logger.
\<close>

definition wrapHandler :: "App \<Rightarrow> Group \<Rightarrow> HandlerFunc \<Rightarrow> http_HandlerFunc" where
  "wrapHandler a g handler =
     (let h = wrapHandler_h a g handler
      in (\<lambda>logger w r.
            let ctx = \<lparr>Writer = w, Request = r, Params = Vars r, app_logger = logger,
                       store = Map.empty, aborted = False\<rparr>
            in case h ctx of
                 (Normal, c') \<Rightarrow> (Normal, c')
               | (Panic rv, c') \<Rightarrow>
                   if rv \<noteq> VNil
                   then (Normal,
                         Context_Error (Logger_Error c' ''Panic recovered: %v'' [rv])
                           500 ''Internal Server Error'' [])
                   else (Normal, c')
               | (Crash v, c') \<Rightarrow> (Crash v, c')))"

definition Group_Route :: "App \<Rightarrow> Group \<Rightarrow> string \<Rightarrow> HandlerFunc \<Rightarrow> string list \<Rightarrow> App" where
  "Group_Route a g path action methods =
     (let handler = wrapHandler a g action
      in if length methods = 0
         then a\<lparr>router := router a @ [mux_HandleFunc (prefix g) path handler]\<rparr>
         else a\<lparr>router := router a @ [mux_Methods methods (mux_HandleFunc (prefix g) path handler)]\<rparr>)"

definition Group_GET :: "App \<Rightarrow> Group \<Rightarrow> string \<Rightarrow> HandlerFunc \<Rightarrow> App" where
  "Group_GET a g path action = Group_Route a g path action [''GET'']"

section \<open>Sequences of registrations\<close>

text \<open>
  The calls an application makes while it sets up one group: \<^verbatim>\<open>App.Use\<close>, \<^verbatim>\<open>Group.Use\<close>
  and \<^verbatim>\<open>Group.Route\<close>, run in order on the application and the group.
\<close>

datatype setup_call =
    Call_App_Use "Middleware list"
  | Call_Group_Use "Middleware list"
  | Call_Route string HandlerFunc "string list"

fun run_call :: "App \<times> Group \<Rightarrow> setup_call \<Rightarrow> App \<times> Group" where
  "run_call (a, g) (Call_App_Use ms) = (App_Use a ms, g)"
| "run_call (a, g) (Call_Group_Use ms) = (a, Group_Use g ms)"
| "run_call (a, g) (Call_Route path action methods) = (Group_Route a g path action methods, g)"

definition run_calls :: "App \<times> Group \<Rightarrow> setup_call list \<Rightarrow> App \<times> Group" where
  "run_calls s calls = foldl run_call s calls"

section \<open>Observing a chain\<close>

text \<open>
  A middleware that leaves a mark in the log on the way in, calls the handler it
  wraps and leaves a second mark on the way out; the second mark is not reached when
  the wrapped handler panics or the process ends. A chain of such middlewares shows the order in which a
  composed handler runs its layers.
\<close>

definition pre_mark :: "string \<Rightarrow> level \<times> string \<times> val list" where
  "pre_mark k = (INFO, ''pre'', [VStr k])"

definition post_mark :: "string \<Rightarrow> level \<times> string \<times> val list" where
  "post_mark k = (INFO, ''post'', [VStr k])"

definition marker :: "string \<Rightarrow> Middleware" where
  "marker k next c =
     (case next (Logger_Info c ''pre'' [VStr k]) of
        (Normal, c') \<Rightarrow> (Normal, Logger_Info c' ''post'' [VStr k])
      | (Panic r, c') \<Rightarrow> (Panic r, c')
      | (Crash r, c') \<Rightarrow> (Crash r, c'))"

text \<open>
  A context after a panic with value \<open>r\<close> has been recovered on it: one more line on
  the error log, and one more response on the writer.
\<close>

definition recovered :: "val \<Rightarrow> Context \<Rightarrow> Context" where
  "recovered r c =
     c\<lparr>Writer := Writer c @
          [Header_Set ''Content-Type'' ''application/json'', WriteHeader 500,
           Write (JObj [(''success'', JBool False),
                        (''error'', JObj [(''code'', JNum 500),
                                          (''message'', JStr ''Internal Server Error'')])])],
       app_logger := app_logger c @ [(ERROR, ''Panic recovered: %v'', [r])]\<rparr>"

text \<open>
  A handler that starts by reading a key with \<^verbatim>\<open>MustGet\<close>: the panic of \<^verbatim>\<open>MustGet\<close>
  leaves the handler, and otherwise the handler goes on with the value.
\<close>

definition with_MustGet :: "string \<Rightarrow> (val \<Rightarrow> HandlerFunc) \<Rightarrow> HandlerFunc" where
  "with_MustGet key body c =
     (case Context_MustGet c key of
        (Inl p, c') \<Rightarrow> (Panic p, c')
      | (Inr v, c') \<Rightarrow> body v c')"

text \<open>The middlewares a call adds to the application, and to the group.\<close>

fun used_on_app :: "setup_call \<Rightarrow> Middleware list" where
  "used_on_app (Call_App_Use ms) = ms"
| "used_on_app (Call_Group_Use ms) = []"
| "used_on_app (Call_Route path action methods) = []"

fun used_on_group :: "setup_call \<Rightarrow> Middleware list" where
  "used_on_group (Call_App_Use ms) = []"
| "used_on_group (Call_Group_Use ms) = ms"
| "used_on_group (Call_Route path action methods) = []"

text \<open>A sequence of calls that only registers routes, in the order given.\<close>

definition route_calls :: "(string \<times> HandlerFunc \<times> string list) list \<Rightarrow> setup_call list" where
  "route_calls rs = map (\<lambda>(path, action, methods). Call_Route path action methods) rs"


subsection \<open>A request to run the definitions on\<close>

definition example_request :: Request where
  "example_request =
     \<lparr>Method = ''GET'', URL_Path = ''/api/users/7'',
      URL_Query = [''q'' \<mapsto> [[]], ''page'' \<mapsto> [''2'']],
      Vars = [''id'' \<mapsto> ''7'']\<rparr>"

definition example_context :: Context where
  "example_context =
     \<lparr>Writer = [], Request = example_request, Params = Vars example_request,
      app_logger = [], store = Map.empty, aborted = False\<rparr>"

definition ok_handler :: HandlerFunc where
  "ok_handler c = (Normal, Context_Success c (VStr ''ok''))"

definition failing_handler :: HandlerFunc where
  "failing_handler c = (Panic (VStr ''boom''), Context_Set c ''seen'' (VBool True))"

definition echo_handler :: "val \<Rightarrow> HandlerFunc" where
  "echo_handler v c = (Normal, Context_Success c v)"

section \<open>Composition of the middleware chain\<close>

lemma wrap_loop_take:
  "i < int (length mws) \<Longrightarrow>
   wrap_loop mws i h = foldr (\<lambda>m k. m k) (take (nat (i + 1)) mws) h"
proof (induction mws i h rule: wrap_loop.induct)
  case (1 mws i h)
  show ?case
  proof (cases "i \<ge> 0")
    case True
    have lt: "nat i < length mws" using True "1.prems" by simp
    have step: "take (nat (i + 1)) mws = take (nat i) mws @ [mws ! nat i]"
      using lt True by (simp add: nat_add_distrib take_Suc_conv_app_nth)
    have "wrap_loop mws i h = wrap_loop mws (i - 1) ((mws ! nat i) h)"
      using True by (subst wrap_loop.simps) simp
    also have "\<dots> = foldr (\<lambda>m k. m k) (take (nat (i - 1 + 1)) mws) ((mws ! nat i) h)"
      using "1.IH"[OF True] "1.prems" by simp
    also have "\<dots> = foldr (\<lambda>m k. m k) (take (nat (i + 1)) mws) h"
      by (simp add: step)
    finally show ?thesis .
  next
    case False
    then show ?thesis by (subst wrap_loop.simps) simp
  qed
qed

lemma wrap_loop_foldr:
  "wrap_loop mws (int (length mws) - 1) h = foldr (\<lambda>m k. m k) mws h"
  using wrap_loop_take[of "int (length mws) - 1" mws h] by simp

lemma wrapHandler_h_foldr:
  "wrapHandler_h a g H = foldr (\<lambda>m k. m k) (middlewares a @ g_middlewares g) H"
  by (simp add: wrapHandler_h_def wrapHandler_middlewares_def Let_def wrap_loop_foldr)

lemma marker_chain:
  "foldr (\<lambda>m k. m k) (map marker ks) H c =
     (case H (c\<lparr>app_logger := app_logger c @ map pre_mark ks\<rparr>) of
        (Normal, c') \<Rightarrow> (Normal, c'\<lparr>app_logger := app_logger c' @ map post_mark (rev ks)\<rparr>)
      | (Panic r, c') \<Rightarrow> (Panic r, c')
      | (Crash r, c') \<Rightarrow> (Crash r, c'))"
proof (induction ks arbitrary: c)
  case Nil
  show ?case by (simp split: prod.splits outcome.splits)
next
  case (Cons k ks)
  let ?c1 = "Logger_Info c ''pre'' [VStr k]"
  let ?inner = "foldr (\<lambda>m k. m k) (map marker ks) H"
  have entry: "?c1\<lparr>app_logger := app_logger ?c1 @ map pre_mark ks\<rparr> =
               c\<lparr>app_logger := app_logger c @ map pre_mark (k # ks)\<rparr>"
    by (simp add: Logger_Info_def pre_mark_def)
  have unfold: "foldr (\<lambda>m k. m k) (map marker (k # ks)) H c =
        (case ?inner ?c1 of
           (Normal, c') \<Rightarrow> (Normal, Logger_Info c' ''post'' [VStr k])
         | (Panic r, c') \<Rightarrow> (Panic r, c')
         | (Crash r, c') \<Rightarrow> (Crash r, c'))"
    by (simp add: marker_def)
  obtain out c2 where run: "H (c\<lparr>app_logger := app_logger c @ map pre_mark (k # ks)\<rparr>) = (out, c2)"
    by (cases "H (c\<lparr>app_logger := app_logger c @ map pre_mark (k # ks)\<rparr>)")
  have inner: "?inner ?c1 =
        (case out of
           Normal \<Rightarrow> (Normal, c2\<lparr>app_logger := app_logger c2 @ map post_mark (rev ks)\<rparr>)
         | Panic r \<Rightarrow> (Panic r, c2)
         | Crash r \<Rightarrow> (Crash r, c2))"
    using Cons.IH[of ?c1] run by (simp add: entry split: outcome.splits)
  show ?case
    unfolding unfold inner run
    by (cases out) (simp_all add: Logger_Info_def post_mark_def)
qed

text \<open>
  C1. The handler the loop of \<^verbatim>\<open>wrapHandler\<close> builds from a middleware list and a
  terminal handler \<open>H\<close> is the nested application \<open>mw\<^sub>0 (mw\<^sub>1 (\<dots> (mw\<^sub>N\<^sub>-\<^sub>1 H)))\<close>: the
  last element is applied first and the first element ends up outermost, and every
  element of the list is applied. Run on marking middlewares, the composed handler
  logs the marks of entry in list order, then runs \<open>H\<close>, then logs the marks of exit in
  reverse order, the first middleware's last; when \<open>H\<close> panics or the process ends
  under it, no mark of exit is logged.
\<close>

theorem wrap_loop_nests:
  "wrap_loop mws (int (length mws) - 1) H = foldr (\<lambda>m k. m k) mws H
   \<and> wrap_loop [m0, m1, m2] (int (length [m0, m1, m2]) - 1) H = m0 (m1 (m2 H))
   \<and> wrapHandler_h a g H = foldr (\<lambda>m k. m k) (wrapHandler_middlewares a g) H
   \<and> wrap_loop (map marker ks) (int (length (map marker ks)) - 1) H c =
       (case H (c\<lparr>app_logger := app_logger c @ map pre_mark ks\<rparr>) of
          (Normal, c') \<Rightarrow> (Normal, c'\<lparr>app_logger := app_logger c' @ map post_mark (rev ks)\<rparr>)
        | (Panic r, c') \<Rightarrow> (Panic r, c')
        | (Crash r, c') \<Rightarrow> (Crash r, c'))"
proof -
  have a: "wrap_loop mws (int (length mws) - 1) H = foldr (\<lambda>m k. m k) mws H"
    by (rule wrap_loop_foldr)
  have b: "wrap_loop [m0, m1, m2] (int (length [m0, m1, m2]) - 1) H = m0 (m1 (m2 H))"
    unfolding wrap_loop_foldr by simp
  have c: "wrapHandler_h a g H = foldr (\<lambda>m k. m k) (wrapHandler_middlewares a g) H"
    by (simp add: wrapHandler_h_foldr wrapHandler_middlewares_def)
  have d: "wrap_loop (map marker ks) (int (length (map marker ks)) - 1) H c =
       (case H (c\<lparr>app_logger := app_logger c @ map pre_mark ks\<rparr>) of
          (Normal, c') \<Rightarrow> (Normal, c'\<lparr>app_logger := app_logger c' @ map post_mark (rev ks)\<rparr>)
        | (Panic r, c') \<Rightarrow> (Panic r, c')
        | (Crash r, c') \<Rightarrow> (Crash r, c'))"
    unfolding wrap_loop_foldr by (rule marker_chain)
  from a b c d show ?thesis by blast
qed

theorem wrap_loop_nests_witness:
  "wrap_loop (map marker [''a'', ''b'']) (int (length (map marker [''a'', ''b''])) - 1)
     ok_handler example_context =
     (Normal,
      example_context
        \<lparr>Writer := [Header_Set ''Content-Type'' ''application/json'', WriteHeader 200,
                    Write (JObj [(''success'', JBool True), (''data'', JStr ''ok'')])],
         app_logger := [pre_mark ''a'', pre_mark ''b'', post_mark ''b'', post_mark ''a'']\<rparr>)"
proof -
  have run: "ok_handler (example_context\<lparr>app_logger := [pre_mark ''a'', pre_mark ''b'']\<rparr>) =
     (Normal,
      example_context
        \<lparr>Writer := [Header_Set ''Content-Type'' ''application/json'', WriteHeader 200,
                    Write (JObj [(''success'', JBool True), (''data'', JStr ''ok'')])],
         app_logger := [pre_mark ''a'', pre_mark ''b'']\<rparr>)"
    by (simp add: ok_handler_def Context_Success_def Context_JSON_def Marshal_Response_def
        omitempty_def example_context_def)
  have start: "example_context\<lparr>app_logger := app_logger example_context @ map pre_mark [''a'', ''b'']\<rparr>
      = example_context\<lparr>app_logger := [pre_mark ''a'', pre_mark ''b'']\<rparr>"
    by (simp add: example_context_def)
  have "wrap_loop (map marker [''a'', ''b'']) (int (length (map marker [''a'', ''b''])) - 1)
          ok_handler example_context =
        (case ok_handler
                (example_context\<lparr>app_logger :=
                   app_logger example_context @ map pre_mark [''a'', ''b'']\<rparr>) of
           (Normal, c') \<Rightarrow>
             (Normal, c'\<lparr>app_logger := app_logger c' @ map post_mark (rev [''a'', ''b''])\<rparr>)
         | (Panic r, c') \<Rightarrow> (Panic r, c')
         | (Crash r, c') \<Rightarrow> (Crash r, c'))"
    using wrap_loop_nests[of "map marker [''a'', ''b'']" ok_handler
        "marker ''a''" "marker ''a''" "marker ''a''" New "App_Group New []"
        "[''a'', ''b'']" example_context]
    by blast
  then show ?thesis
    unfolding start run
    by (simp add: example_context_def)
qed

section \<open>Panic recovery\<close>

lemma Sprintf_internal: "Sprintf ''Internal Server Error'' [] = ''Internal Server Error''"
  by (simp add: fmt_extra_def)

lemma Sprintf_missing_key:
  "Sprintf ''Key %s does not exist in context'' [VStr key] =
   ''Key '' @ key @ '' does not exist in context''"
  by (simp add: fmt_extra_def skip_spec_def is_flag_def is_digit_def fmt_verb_def)

lemma Marshal_error_envelope:
  "Marshal_Response
     \<lparr>Success = False, Data = VNil, Error = Some \<lparr>Code = status, Message = msg\<rparr>, Meta = VNil\<rparr>
   = Inr (JObj [(''success'', JBool False),
                (''error'', JObj [(''code'', JNum status), (''message'', JStr msg)])])"
  by (simp add: Marshal_Response_def omitempty_def Marshal_APIError_def)

lemma Context_JSON_envelope:
  "Marshal_Response resp = Inr j \<Longrightarrow>
   Context_JSON c status (Envelope resp) =
     c\<lparr>Writer := Writer c @
        [Header_Set ''Content-Type'' ''application/json'', WriteHeader status, Write j]\<rparr>"
  by (simp add: Context_JSON_def)

lemma Context_Error_writes:
  "Context_Error c status message args =
     c\<lparr>Writer := Writer c @
        [Header_Set ''Content-Type'' ''application/json'', WriteHeader status,
         Write (JObj [(''success'', JBool False),
                      (''error'', JObj [(''code'', JNum status),
                                        (''message'', JStr (Sprintf message args))])])]\<rparr>"
  unfolding Context_Error_def Let_def
  by (rule Context_JSON_envelope) (rule Marshal_error_envelope)

lemma guard_writes:
  "Context_Error (Logger_Error c ''Panic recovered: %v'' [r]) 500 ''Internal Server Error'' [] =
   recovered r c"
  unfolding Context_Error_writes Sprintf_internal
  by (simp add: Logger_Error_def recovered_def)

lemma recovered_fields:
  "Writer (recovered r c) =
     Writer c @
       [Header_Set ''Content-Type'' ''application/json'', WriteHeader 500,
        Write (JObj [(''success'', JBool False),
                     (''error'', JObj [(''code'', JNum 500),
                                       (''message'', JStr ''Internal Server Error'')])])]"
  "app_logger (recovered r c) = app_logger c @ [(ERROR, ''Panic recovered: %v'', [r])]"
  "store (recovered r c) = store c"
  "aborted (recovered r c) = aborted c"
  by (simp_all add: recovered_def)

lemma RecoverMiddleware_cases:
  "RecoverMiddleware next c =
     (case next c of
        (Normal, c') \<Rightarrow> (Normal, c')
      | (Panic r, c') \<Rightarrow> (Normal, if r \<noteq> VNil then recovered r c' else c')
      | (Crash v, c') \<Rightarrow> (Crash v, c'))"
proof (cases "next c")
  case (Pair out c')
  then show ?thesis
    by (cases out) (simp_all add: RecoverMiddleware_def guard_writes)
qed

lemma RecoverMiddleware_returns:
  "fst (RecoverMiddleware next c) =
     (case fst (next c) of Normal \<Rightarrow> Normal | Panic r \<Rightarrow> Normal | Crash v \<Rightarrow> Crash v)"
proof (cases "next c")
  case (Pair out c')
  then show ?thesis
    by (cases out) (simp_all add: RecoverMiddleware_cases)
qed

lemma RecoverMiddleware_no_panic: "fst (RecoverMiddleware next c) \<noteq> Panic v"
  unfolding RecoverMiddleware_returns by (cases "fst (next c)") simp_all

lemma wrapHandler_cases:
  "wrapHandler a g H logger w r =
     (case wrapHandler_h a g H
             \<lparr>Writer = w, Request = r, Params = Vars r, app_logger = logger,
              store = Map.empty, aborted = False\<rparr> of
        (Normal, c') \<Rightarrow> (Normal, c')
      | (Panic rv, c') \<Rightarrow> (Normal, if rv \<noteq> VNil then recovered rv c' else c')
      | (Crash v, c') \<Rightarrow> (Crash v, c'))"
proof (cases "wrapHandler_h a g H
             \<lparr>Writer = w, Request = r, Params = Vars r, app_logger = logger,
              store = Map.empty, aborted = False\<rparr>")
  case (Pair out c')
  then show ?thesis
    by (cases out) (simp_all add: wrapHandler_def Let_def guard_writes)
qed



lemma guard_passes_recovery:
  "(\<And>v. fst (h c) \<noteq> Panic v) \<Longrightarrow>
   (case h c of
      (Normal, c') \<Rightarrow> (Normal, c')
    | (Panic rv, c') \<Rightarrow> (Normal, if rv \<noteq> VNil then recovered rv c' else c')
    | (Crash v, c') \<Rightarrow> (Crash v, c')) = h c"
proof (cases "h c")
  case (Pair out c')
  assume "\<And>v. fst (h c) \<noteq> Panic v"
  then show ?thesis
    using Pair by (cases out) auto
qed

lemma wrapHandler_with_Recover:
  "wrapHandler \<lparr>middlewares = RecoverMiddleware # ms, router = rt\<rparr> g H logger w r =
     RecoverMiddleware (foldr (\<lambda>m k. m k) (ms @ g_middlewares g) H)
       \<lparr>Writer = w, Request = r, Params = Vars r, app_logger = logger,
        store = Map.empty, aborted = False\<rparr>"
  unfolding wrapHandler_cases wrapHandler_h_foldr
  by (simp add: guard_passes_recovery RecoverMiddleware_no_panic)




text \<open>
  C4. \<^verbatim>\<open>RecoverMiddleware\<close> around a handler: when the handler returns, the context is
  exactly what the handler left, nothing is logged and nothing is written. When the
  handler panics with a value, that value is logged once and the 500 envelope is
  written once, after what the handler had written, and the layer returns: no panic
  leaves it. (When the process has ended under the handler, the layer is not reached.)
  Since the layer returns, the guard of \<^verbatim>\<open>wrapHandler\<close> outside it adds nothing: a route
  whose outermost middleware is \<^verbatim>\<open>RecoverMiddleware\<close> behaves as that middleware alone.
\<close>

theorem RecoverMiddleware_intercepts:
  "RecoverMiddleware next c =
     (case next c of
        (Normal, c') \<Rightarrow> (Normal, c')
      | (Panic r, c') \<Rightarrow> (Normal, if r \<noteq> VNil then recovered r c' else c')
      | (Crash v, c') \<Rightarrow> (Crash v, c'))
   \<and> fst (RecoverMiddleware next c) =
       (case fst (next c) of Normal \<Rightarrow> Normal | Panic r \<Rightarrow> Normal | Crash v \<Rightarrow> Crash v)
   \<and> (\<forall>v. fst (RecoverMiddleware next c) \<noteq> Panic v)
   \<and> Writer (recovered r c) =
       Writer c @
         [Header_Set ''Content-Type'' ''application/json'', WriteHeader 500,
          Write (JObj [(''success'', JBool False),
                       (''error'', JObj [(''code'', JNum 500),
                                         (''message'', JStr ''Internal Server Error'')])])]
   \<and> app_logger (recovered r c) = app_logger c @ [(ERROR, ''Panic recovered: %v'', [r])]
   \<and> wrapHandler \<lparr>middlewares = RecoverMiddleware # ms, router = rt\<rparr> g H logger w req =
       RecoverMiddleware (foldr (\<lambda>m k. m k) (ms @ g_middlewares g) H)
         \<lparr>Writer = w, Request = req, Params = Vars req, app_logger = logger,
          store = Map.empty, aborted = False\<rparr>"
proof -
  have none: "\<forall>v. fst (RecoverMiddleware next c) \<noteq> Panic v"
    by (simp add: RecoverMiddleware_no_panic)
  from RecoverMiddleware_cases[of "next" c] RecoverMiddleware_returns[of "next" c] none
    recovered_fields(1,2)[of r c] wrapHandler_with_Recover[of ms rt g H logger w req]
  show ?thesis by blast
qed

theorem RecoverMiddleware_intercepts_witness:
  "RecoverMiddleware failing_handler example_context =
     (Normal,
      example_context
        \<lparr>Writer := [Header_Set ''Content-Type'' ''application/json'', WriteHeader 500,
                    Write (JObj [(''success'', JBool False),
                                 (''error'', JObj [(''code'', JNum 500),
                                                   (''message'', JStr ''Internal Server Error'')])])],
         app_logger := [(ERROR, ''Panic recovered: %v'', [VStr ''boom''])],
         store := [''seen'' \<mapsto> VBool True]\<rparr>)
   \<and> RecoverMiddleware ok_handler example_context = ok_handler example_context"
  using RecoverMiddleware_intercepts[of failing_handler example_context]
    RecoverMiddleware_intercepts[of ok_handler example_context]
  by (simp add: failing_handler_def ok_handler_def Context_Set_def recovered_def
      example_context_def)

section \<open>The key/value store\<close>

lemma Context_MustGet_cases:
  "Context_MustGet c key =
     (case store c key of
        Some v \<Rightarrow> (Inr v, c)
      | None \<Rightarrow> (Inl (VStr (''Key '' @ key @ '' does not exist in context'')), c))"
  unfolding Context_MustGet_def Sprintf_missing_key
  by (simp add: Context_Get_def split: option.splits)

lemma Recover_with_MustGet:
  "RecoverMiddleware (with_MustGet key body) c =
     (case store c key of
        Some v \<Rightarrow> RecoverMiddleware (body v) c
      | None \<Rightarrow> (Normal, recovered (VStr (''Key '' @ key @ '' does not exist in context'')) c))"
proof (cases "store c key")
  case None
  then have "with_MustGet key body c =
      (Panic (VStr (''Key '' @ key @ '' does not exist in context'')), c)"
    by (simp add: with_MustGet_def Context_MustGet_cases)
  then show ?thesis using None by (simp add: RecoverMiddleware_cases)
next
  case (Some v)
  then have "with_MustGet key body c = body v c"
    by (simp add: with_MustGet_def Context_MustGet_cases)
  then show ?thesis using Some by (simp add: RecoverMiddleware_cases)
qed

text \<open>
  C7. \<^verbatim>\<open>MustGet\<close> returns the stored value of a key that is in the store, and panics
  with the message \<^verbatim>\<open>Key <key> does not exist in context\<close> when the key is not; it
  leaves the context as it was. A handler that calls \<^verbatim>\<open>MustGet\<close> on a missing key under
  \<^verbatim>\<open>RecoverMiddleware\<close> ends normally, with the message on the error log and the 500
  envelope written.
\<close>

theorem MustGet_panic_is_recovered:
  "Context_MustGet c key =
     (case store c key of
        Some v \<Rightarrow> (Inr v, c)
      | None \<Rightarrow> (Inl (VStr (''Key '' @ key @ '' does not exist in context'')), c))
   \<and> RecoverMiddleware (with_MustGet key body) c =
       (case store c key of
          Some v \<Rightarrow> RecoverMiddleware (body v) c
        | None \<Rightarrow> (Normal, recovered (VStr (''Key '' @ key @ '' does not exist in context'')) c))
   \<and> Writer (recovered r c) =
       Writer c @
         [Header_Set ''Content-Type'' ''application/json'', WriteHeader 500,
          Write (JObj [(''success'', JBool False),
                       (''error'', JObj [(''code'', JNum 500),
                                         (''message'', JStr ''Internal Server Error'')])])]
   \<and> app_logger (recovered r c) = app_logger c @ [(ERROR, ''Panic recovered: %v'', [r])]"
  using Context_MustGet_cases[of c key] Recover_with_MustGet[of key body c]
    recovered_fields(1,2)[of r c]
  by blast

theorem MustGet_panic_is_recovered_witness:
  "Context_MustGet example_context ''user'' =
     (Inl (VStr ''Key user does not exist in context''), example_context)
   \<and> Context_MustGet (Context_Set example_context ''user'' (VInt 7)) ''user'' =
       (Inr (VInt 7), Context_Set example_context ''user'' (VInt 7))
   \<and> RecoverMiddleware (with_MustGet ''user'' echo_handler) example_context =
       (Normal,
        example_context
          \<lparr>Writer := [Header_Set ''Content-Type'' ''application/json'', WriteHeader 500,
                      Write (JObj [(''success'', JBool False),
                                   (''error'', JObj [(''code'', JNum 500),
                                                     (''message'', JStr ''Internal Server Error'')])])],
           app_logger := [(ERROR, ''Panic recovered: %v'',
                           [VStr ''Key user does not exist in context''])]\<rparr>)"
  using MustGet_panic_is_recovered[of example_context "''user''" echo_handler]
    MustGet_panic_is_recovered[of "Context_Set example_context ''user'' (VInt 7)" "''user''"]
  by (simp add: Context_Set_def recovered_def example_context_def)

section \<open>The effective chain of a route\<close>

lemma go_append_elems:
  assumes "len s \<le> length (M (base s))"
  shows "elems (fst (fst (go_append grow (M, fresh) s xs))) (snd (go_append grow (M, fresh) s xs)) =
         elems M s @ xs"
  using assms by (simp add: go_append_def elems_def Let_def)

lemma go_append_keeps:
  assumes "len t \<le> length (M (base t))" and "base t < fresh"
    and "base t \<noteq> base s \<or> len t \<le> len s"
  shows "elems (fst (fst (go_append grow (M, fresh) s xs))) t = elems M t"
  using assms by (auto simp: go_append_def elems_def Let_def)

lemma go_append_spare_capacity:
  "go_append (\<lambda>old n. 2 * n) ((\<lambda>p. []) (1 := [''a1'', ''a2'', ''a3'', ''stale'']), 2)
     \<lparr>base = 1, len = 3, cap = 4\<rparr> [''g1''] =
   (((\<lambda>p. []) (1 := [''a1'', ''a2'', ''a3'', ''g1'']), 2), \<lparr>base = 1, len = 4, cap = 4\<rparr>)"
  by (simp add: go_append_def Let_def)

lemma run_calls_Nil: "run_calls s [] = s"
  by (simp add: run_calls_def)

lemma run_calls_Cons: "run_calls s (x # xs) = run_calls (run_call s x) xs"
  by (simp add: run_calls_def)

lemma run_call_middlewares:
  "middlewares (fst (run_call (a, g) x)) = middlewares a @ used_on_app x"
  "g_middlewares (snd (run_call (a, g) x)) = g_middlewares g @ used_on_group x"
  "prefix (snd (run_call (a, g) x)) = prefix g"
  by (cases x; simp add: App_Use_def Group_Use_def Group_Route_def Let_def)+

lemma run_calls_middlewares:
  "middlewares (fst (run_calls (a, g) calls)) = middlewares a @ concat (map used_on_app calls)
   \<and> g_middlewares (snd (run_calls (a, g) calls)) =
       g_middlewares g @ concat (map used_on_group calls)
   \<and> prefix (snd (run_calls (a, g) calls)) = prefix g"
proof (induction calls arbitrary: a g)
  case Nil
  show ?case by (simp add: run_calls_Nil)
next
  case (Cons x xs)
  obtain a1 g1 where step: "run_call (a, g) x = (a1, g1)"
    by (cases "run_call (a, g) x")
  have m: "middlewares a1 = middlewares a @ used_on_app x"
          "g_middlewares g1 = g_middlewares g @ used_on_group x"
          "prefix g1 = prefix g"
    using run_call_middlewares[of a g x] step by simp_all
  show ?case
    using Cons.IH[of a1 g1] by (simp add: run_calls_Cons step m)
qed

lemma used_by_route_calls:
  "concat (map used_on_app (route_calls rs)) = []"
  "concat (map used_on_group (route_calls rs)) = []"
  by (induction rs) (auto simp: route_calls_def)

lemma run_call_router:
  "\<exists>rs. router (fst (run_call s x)) = router (fst s) @ rs"
  by (cases s; cases x) (simp_all add: App_Use_def Group_Route_def Let_def)

lemma run_calls_router:
  "\<exists>rs. router (fst (run_calls s calls)) = router (fst s) @ rs"
proof (induction calls arbitrary: s)
  case Nil
  show ?case by (simp add: run_calls_Nil)
next
  case (Cons x xs)
  obtain rs1 where r1: "router (fst (run_call s x)) = router (fst s) @ rs1"
    using run_call_router by blast
  obtain rs2 where r2:
    "router (fst (run_calls (run_call s x) xs)) = router (fst (run_call s x)) @ rs2"
    using Cons.IH by blast
  show ?case by (simp add: run_calls_Cons r1 r2)
qed

lemma Group_Route_router:
  "router (Group_Route a g path action methods) =
     router a @
       [\<lparr>route_path = TrimRight_slash (prefix g) @ path,
         method_matchers = (if methods = [] then [] else [map ToUpper methods]),
         route_handler = wrapHandler a g action,
         route_err = (refused_template (prefix g) \<or> refused_template path)\<rparr>]"
  by (simp add: Group_Route_def Let_def mux_HandleFunc_def mux_Methods_def)

lemma route_after_calls:
  "router (fst (run_calls s (Call_Route path action methods # calls))) ! length (router (fst s)) =
     \<lparr>route_path = TrimRight_slash (prefix (snd s)) @ path,
      method_matchers = (if methods = [] then [] else [map ToUpper methods]),
      route_handler = wrapHandler (fst s) (snd s) action,
      route_err = (refused_template (prefix (snd s)) \<or> refused_template path)\<rparr>
   \<and> length (router (fst s))
       < length (router (fst (run_calls s (Call_Route path action methods # calls))))"
proof -
  obtain a g where s: "s = (a, g)" by (cases s)
  let ?s1 = "run_call s (Call_Route path action methods)"
  have r1: "router (fst ?s1) = router a @
       [\<lparr>route_path = TrimRight_slash (prefix g) @ path,
         method_matchers = (if methods = [] then [] else [map ToUpper methods]),
         route_handler = wrapHandler a g action,
         route_err = (refused_template (prefix g) \<or> refused_template path)\<rparr>]"
    by (simp add: s Group_Route_router)
  obtain rs where r2: "router (fst (run_calls ?s1 calls)) = router (fst ?s1) @ rs"
    using run_calls_router by blast
  have "router (fst (run_calls s (Call_Route path action methods # calls))) =
      (router a @
       [\<lparr>route_path = TrimRight_slash (prefix g) @ path,
         method_matchers = (if methods = [] then [] else [map ToUpper methods]),
         route_handler = wrapHandler a g action,
         route_err = (refused_template (prefix g) \<or> refused_template path)\<rparr>]) @ rs"
    unfolding run_calls_Cons r2 r1 ..
  then show ?thesis
    by (simp add: s nth_append)
qed

lemma wrapHandler_same_middlewares:
  "middlewares a' = middlewares a \<Longrightarrow> wrapHandler a' g = wrapHandler a g"
  by (rule ext) (simp add: wrapHandler_def wrapHandler_h_def wrapHandler_middlewares_def)

lemma handlers_of_route_calls:
  "middlewares a' = middlewares a \<Longrightarrow>
   map route_handler (router (fst (run_calls (a', g) (route_calls rs)))) =
     map route_handler (router a') @ map (\<lambda>(path, action, methods). wrapHandler a g action) rs"
proof (induction rs arbitrary: a')
  case Nil
  show ?case by (simp add: route_calls_def run_calls_Nil)
next
  case (Cons x xs)
  obtain path action methods where x: "x = (path, action, methods)"
    by (cases x)
  let ?a1 = "Group_Route a' g path action methods"
  have same: "middlewares ?a1 = middlewares a"
    using Cons.prems by (simp add: Group_Route_def Let_def)
  have first: "run_calls (a', g) (route_calls (x # xs)) = run_calls (?a1, g) (route_calls xs)"
    by (simp add: route_calls_def run_calls_Cons x)
  have "map route_handler (router ?a1) =
        map route_handler (router a') @ [wrapHandler a g action]"
    by (simp add: Group_Route_router wrapHandler_same_middlewares[OF Cons.prems])
  then show ?case
    unfolding first Cons.IH[OF same] by (simp add: x)
qed

lemma marker_app_group:
  "wrapHandler_h \<lparr>middlewares = map marker As, router = rt\<rparr>
                 \<lparr>prefix = p, g_middlewares = map marker Gs\<rparr> H c =
     (case H (c\<lparr>app_logger := app_logger c @ map pre_mark As @ map pre_mark Gs\<rparr>) of
        (Normal, c') \<Rightarrow>
          (Normal, c'\<lparr>app_logger :=
                      app_logger c' @ map post_mark (rev Gs) @ map post_mark (rev As)\<rparr>)
      | (Panic r, c') \<Rightarrow> (Panic r, c')
      | (Crash r, c') \<Rightarrow> (Crash r, c'))"
proof -
  have r: "map post_mark (rev (As @ Gs)) = map post_mark (rev Gs) @ map post_mark (rev As)"
    by simp
  have p: "map pre_mark (As @ Gs) = map pre_mark As @ map pre_mark Gs"
    by simp
  have h: "wrapHandler_h \<lparr>middlewares = map marker As, router = rt\<rparr>
                 \<lparr>prefix = p, g_middlewares = map marker Gs\<rparr> H =
        foldr (\<lambda>m k. m k) (map marker (As @ Gs)) H"
    by (simp add: wrapHandler_h_foldr)
  show ?thesis
    unfolding h marker_chain[of "As @ Gs" H c] r p ..
qed

text \<open>
  C2. The list \<^verbatim>\<open>wrapHandler\<close> composes for a route of a group is the application's
  middlewares followed by the group's, so the application's are applied outside the
  group's: with marking middlewares, the application's marks of entry come first and
  its marks of exit come last. Registering routes changes neither list, so every route
  of a sequence of registrations, in whatever order, gets the chain of the same two
  lists.
\<close>

theorem effective_chain:
  "wrapHandler_middlewares a g = middlewares a @ g_middlewares g
   \<and> wrapHandler_h a g H =
       foldr (\<lambda>m k. m k) (middlewares a) (foldr (\<lambda>m k. m k) (g_middlewares g) H)
   \<and> wrapHandler_h \<lparr>middlewares = map marker As, router = rt\<rparr>
                    \<lparr>prefix = p, g_middlewares = map marker Gs\<rparr> H c =
       (case H (c\<lparr>app_logger := app_logger c @ map pre_mark As @ map pre_mark Gs\<rparr>) of
          (Normal, c') \<Rightarrow>
            (Normal, c'\<lparr>app_logger :=
                        app_logger c' @ map post_mark (rev Gs) @ map post_mark (rev As)\<rparr>)
        | (Panic r, c') \<Rightarrow> (Panic r, c')
        | (Crash r, c') \<Rightarrow> (Crash r, c'))
   \<and> wrapHandler_middlewares (fst (run_calls (a, g) (route_calls rs)))
                              (snd (run_calls (a, g) (route_calls rs))) =
       middlewares a @ g_middlewares g
   \<and> map route_handler (router (fst (run_calls (a, g) (route_calls rs)))) =
       map route_handler (router a) @
       map (\<lambda>(path, action, methods). wrapHandler a g action) rs"
proof -
  have one: "wrapHandler_middlewares a g = middlewares a @ g_middlewares g"
    by (simp add: wrapHandler_middlewares_def)
  have two: "wrapHandler_h a g H =
       foldr (\<lambda>m k. m k) (middlewares a) (foldr (\<lambda>m k. m k) (g_middlewares g) H)"
    by (simp add: wrapHandler_h_foldr)
  have four: "wrapHandler_middlewares (fst (run_calls (a, g) (route_calls rs)))
                              (snd (run_calls (a, g) (route_calls rs))) =
       middlewares a @ g_middlewares g"
    using run_calls_middlewares[of a g "route_calls rs"]
    by (simp add: wrapHandler_middlewares_def used_by_route_calls)
  have five: "map route_handler (router (fst (run_calls (a, g) (route_calls rs)))) =
       map route_handler (router a) @
       map (\<lambda>(path, action, methods). wrapHandler a g action) rs"
    by (rule handlers_of_route_calls) simp
  from one two four five marker_app_group[of As rt p Gs H c] show ?thesis by blast
qed

theorem effective_chain_witness:
  "wrapHandler_h \<lparr>middlewares = map marker [''app''], router = []\<rparr>
                 \<lparr>prefix = ''/api'', g_middlewares = map marker [''group'']\<rparr>
                 ok_handler example_context =
     (Normal,
      example_context
        \<lparr>Writer := [Header_Set ''Content-Type'' ''application/json'', WriteHeader 200,
                    Write (JObj [(''success'', JBool True), (''data'', JStr ''ok'')])],
         app_logger := [pre_mark ''app'', pre_mark ''group'',
                        post_mark ''group'', post_mark ''app'']\<rparr>)"
proof -
  have run: "ok_handler (example_context\<lparr>app_logger := [pre_mark ''app'', pre_mark ''group'']\<rparr>) =
     (Normal,
      example_context
        \<lparr>Writer := [Header_Set ''Content-Type'' ''application/json'', WriteHeader 200,
                    Write (JObj [(''success'', JBool True), (''data'', JStr ''ok'')])],
         app_logger := [pre_mark ''app'', pre_mark ''group'']\<rparr>)"
    by (simp add: ok_handler_def Context_Success_def Context_JSON_def Marshal_Response_def
        omitempty_def example_context_def)
  have start: "example_context\<lparr>app_logger :=
         app_logger example_context @ map pre_mark [''app''] @ map pre_mark [''group'']\<rparr>
      = example_context\<lparr>app_logger := [pre_mark ''app'', pre_mark ''group'']\<rparr>"
    by (simp add: example_context_def)
  have "wrapHandler_h \<lparr>middlewares = map marker [''app''], router = []\<rparr>
                 \<lparr>prefix = ''/api'', g_middlewares = map marker [''group'']\<rparr>
                 ok_handler example_context =
        (case ok_handler
                (example_context\<lparr>app_logger :=
                   app_logger example_context @ map pre_mark [''app''] @ map pre_mark [''group'']\<rparr>) of
           (Normal, c') \<Rightarrow>
             (Normal, c'\<lparr>app_logger :=
                app_logger c' @ map post_mark (rev [''group'']) @ map post_mark (rev [''app''])\<rparr>)
         | (Panic r, c') \<Rightarrow> (Panic r, c')
         | (Crash r, c') \<Rightarrow> (Crash r, c'))"
    using effective_chain[of New "App_Group New []" ok_handler "[''app'']" "[]" "''/api''"
        "[''group'']" example_context "[]"]
    by blast
  then show ?thesis
    unfolding start run
    by (simp add: example_context_def)
qed

text \<open>
  C6. A route keeps the handler it was given when it was registered. After any
  calls \<open>before\<close>, a registration and any calls \<open>after\<close> (more \<^verbatim>\<open>Use\<close> on the application
  or the group, more routes), the route is still found where it was added, and its
  handler is the one \<^verbatim>\<open>wrapHandler\<close> built from the two middleware lists as they were
  at the registration: the initial lists and what the calls \<open>before\<close> added, and
  nothing of what the calls \<open>after\<close> add.
\<close>

theorem registered_chain_is_fixed:
  "route_handler
     (router (fst (run_calls (run_calls (a, g) before)
                     (Call_Route path action methods # after)))
      ! length (router (fst (run_calls (a, g) before)))) =
     wrapHandler (fst (run_calls (a, g) before)) (snd (run_calls (a, g) before)) action
   \<and> length (router (fst (run_calls (a, g) before)))
       < length (router (fst (run_calls (run_calls (a, g) before)
                               (Call_Route path action methods # after))))
   \<and> wrapHandler_middlewares (fst (run_calls (a, g) before)) (snd (run_calls (a, g) before)) =
       (middlewares a @ concat (map used_on_app before)) @
       (g_middlewares g @ concat (map used_on_group before))
   \<and> run_calls (a, g) (before @ Call_Route path action methods # after) =
       run_calls (run_calls (a, g) before) (Call_Route path action methods # after)"
proof -
  have mws: "wrapHandler_middlewares (fst (run_calls (a, g) before))
               (snd (run_calls (a, g) before)) =
       (middlewares a @ concat (map used_on_app before)) @
       (g_middlewares g @ concat (map used_on_group before))"
    using run_calls_middlewares[of a g before] by (simp add: wrapHandler_middlewares_def)
  have app: "run_calls (a, g) (before @ Call_Route path action methods # after) =
       run_calls (run_calls (a, g) before) (Call_Route path action methods # after)"
    by (simp add: run_calls_def)
  from route_after_calls[of "run_calls (a, g) before" path action methods after] mws app
  show ?thesis by simp
qed

theorem registered_chain_is_fixed_witness:
  "route_handler
     (router (fst (run_calls (New, App_Group New ''/api'')
        [Call_App_Use [marker ''early''],
         Call_Route ''/ping'' ok_handler [''GET''],
         Call_App_Use [marker ''late''],
         Call_Group_Use [marker ''late in group'']])) ! 0) =
     wrapHandler \<lparr>middlewares = [marker ''early''], router = []\<rparr>
                 \<lparr>prefix = ''/api'', g_middlewares = []\<rparr> ok_handler
   \<and> app_logger (snd (wrapHandler \<lparr>middlewares = [marker ''early''], router = []\<rparr>
                 \<lparr>prefix = ''/api'', g_middlewares = []\<rparr> ok_handler [] [] example_request)) =
       [pre_mark ''early'', post_mark ''early'']"
proof -
  have before: "run_calls (New, App_Group New ''/api'') [Call_App_Use [marker ''early'']] =
      (\<lparr>middlewares = [marker ''early''], router = []\<rparr>, \<lparr>prefix = ''/api'', g_middlewares = []\<rparr>)"
    by (simp add: run_calls_def New_def App_Group_def App_Use_def)
  have log: "app_logger (snd (wrapHandler \<lparr>middlewares = [marker ''early''], router = []\<rparr>
                 \<lparr>prefix = ''/api'', g_middlewares = []\<rparr> ok_handler [] [] example_request)) =
       [pre_mark ''early'', post_mark ''early'']"
    by (simp add: wrapHandler_cases wrapHandler_h_foldr marker_def ok_handler_def Logger_Info_def
        Context_Success_def Context_JSON_def Marshal_Response_def omitempty_def
        pre_mark_def post_mark_def)
  show ?thesis
    using registered_chain_is_fixed[of New "App_Group New ''/api''"
        "[Call_App_Use [marker ''early'']]" "''/ping''" ok_handler "[''GET'']"
        "[Call_App_Use [marker ''late''], Call_Group_Use [marker ''late in group'']]"]
      log
    unfolding before
    by simp
qed

section \<open>The response envelope\<close>










section \<open>Parameter accessors\<close>

lemma Context_QueryDefault_cases:
  "Context_QueryDefault c name d =
     ((case URL_Query (Request c) name of
         None \<Rightarrow> d
       | Some [] \<Rightarrow> d
       | Some (v # vs) \<Rightarrow> if v = [] then d else v), c)"
  by (simp add: Context_QueryDefault_def Context_Query_def Values_Get_def
      split: option.splits list.splits)

text \<open>
  C9, as the code has it. \<^verbatim>\<open>GetParam\<close>, \<^verbatim>\<open>Query\<close> and \<^verbatim>\<open>QueryDefault\<close> leave the context
  as it was. \<^verbatim>\<open>GetParam\<close> gives the path variable of that name, or the empty string.
  \<^verbatim>\<open>Query\<close> gives the first value of the query parameter, or the empty string when the
  parameter is absent. \<^verbatim>\<open>QueryDefault\<close> gives that first value when it is not the empty
  string, and the fallback when the parameter is absent or its first value is empty.
\<close>

theorem accessors_read_only:
  "Context_GetParam c name = ((case Params c name of None \<Rightarrow> [] | Some v \<Rightarrow> v), c)
   \<and> Context_Query c name =
       ((case URL_Query (Request c) name of
           None \<Rightarrow> []
         | Some [] \<Rightarrow> []
         | Some (v # vs) \<Rightarrow> v), c)
   \<and> Context_QueryDefault c name d =
       ((case URL_Query (Request c) name of
           None \<Rightarrow> d
         | Some [] \<Rightarrow> d
         | Some (v # vs) \<Rightarrow> if v = [] then d else v), c)"
  by (simp add: Context_GetParam_def Context_Query_def Values_Get_def Context_QueryDefault_cases
      split: option.splits list.splits)

text \<open>
  The request \<^verbatim>\<open>GET /api/users/7?q=&page=2\<close> has the parameter \<^verbatim>\<open>q\<close>, with the empty
  string as its value; \<^verbatim>\<open>QueryDefault\<close> does not return that value but the fallback.
\<close>

theorem QueryDefault_present_but_empty:
  "URL_Query (Request example_context) ''q'' = Some [[]]
   \<and> fst (Context_Query example_context ''q'') = []
   \<and> fst (Context_QueryDefault example_context ''q'' ''fallback'') = ''fallback''
   \<and> fst (Context_QueryDefault example_context ''q'' ''fallback'') \<noteq> []"
  by (simp add: Context_QueryDefault_cases Context_Query_def Values_Get_def
      example_context_def example_request_def)

section \<open>Method restriction of a route\<close>

lemma matches_one:
  "matches_method \<lparr>route_path = p, method_matchers = [names], route_handler = h, route_err = e\<rparr> m
   = (m \<in> set names)"
  by (simp add: matches_method_def)

lemma matches_none:
  "matches_method \<lparr>route_path = p, method_matchers = [], route_handler = h, route_err = e\<rparr> m"
  by (simp add: matches_method_def)

lemma map_fixed: "list_all (\<lambda>x. f x = x) xs \<Longrightarrow> map f xs = xs"
  by (induction xs) auto

text \<open>
  C10. \<^verbatim>\<open>Route\<close> adds one route to the router, for the path under the group's prefix
  (the prefix without its trailing slashes, followed by the path) and with the wrapped
  handler. Called with no methods it adds no method matcher, so that the route puts no
  condition on the method of a request: every method passes. Called with methods it
  adds one matcher for the names it was given, which the router keeps in upper case:
  a request then passes exactly when its method is one of those names. For names
  written in upper case, as the standard methods are, these are the names as given.
\<close>

theorem Route_methods:
  "router (Group_Route a g path action methods) =
     router a @
       [if length methods = 0
        then mux_HandleFunc (prefix g) path (wrapHandler a g action)
        else mux_Methods methods (mux_HandleFunc (prefix g) path (wrapHandler a g action))]
   \<and> route_handler (last (router (Group_Route a g path action methods))) = wrapHandler a g action
   \<and> matches_method (last (router (Group_Route a g path action methods))) m =
       (methods = [] \<or> m \<in> set (map ToUpper methods))
   \<and> (list_all (\<lambda>x. ToUpper x = x) methods \<longrightarrow>
        matches_method (last (router (Group_Route a g path action methods))) m =
          (methods = [] \<or> m \<in> set methods))"
proof -
  have r: "router (Group_Route a g path action methods) =
     router a @
       [if length methods = 0
        then mux_HandleFunc (prefix g) path (wrapHandler a g action)
        else mux_Methods methods (mux_HandleFunc (prefix g) path (wrapHandler a g action))]"
    by (simp add: Group_Route_def Let_def)
  have h: "route_handler (last (router (Group_Route a g path action methods))) =
       wrapHandler a g action"
    by (simp add: Group_Route_router)
  have m: "matches_method (last (router (Group_Route a g path action methods))) m =
       (methods = [] \<or> m \<in> set (map ToUpper methods))"
    by (cases "methods = []") (simp_all add: Group_Route_router matches_one matches_none)
  have u: "list_all (\<lambda>x. ToUpper x = x) methods \<longrightarrow>
        matches_method (last (router (Group_Route a g path action methods))) m =
          (methods = [] \<or> m \<in> set methods)"
  proof
    assume fixed: "list_all (\<lambda>x. ToUpper x = x) methods"
    have eq: "map ToUpper methods = methods"
      by (rule map_fixed[OF fixed])
    show "matches_method (last (router (Group_Route a g path action methods))) m =
          (methods = [] \<or> m \<in> set methods)"
      using m by (simp only: eq)
  qed
  from r h m u show ?thesis by blast
qed

theorem Route_methods_witness:
  "list_all (\<lambda>x. ToUpper x = x) [''GET'', ''POST'']
   \<and> matches_method
        (last (router (Group_Route New (App_Group New ''/api'') ''/users'' ok_handler
                         [''GET'', ''POST''])))
        ''POST''
   \<and> \<not> matches_method
        (last (router (Group_Route New (App_Group New ''/api'') ''/users'' ok_handler
                         [''GET'', ''POST''])))
        ''DELETE''
   \<and> matches_method
        (last (router (Group_Route New (App_Group New ''/api'') ''/users'' ok_handler [])))
        ''DELETE''"
proof -
  have up: "list_all (\<lambda>x. ToUpper x = x) [''GET'', ''POST'']"
    by (simp add: ToUpper_def to_upper_def)
  note exact = Route_methods[THEN conjunct2, THEN conjunct2, THEN conjunct2, rule_format]
  have post: "matches_method
        (last (router (Group_Route New (App_Group New ''/api'') ''/users'' ok_handler
                         [''GET'', ''POST''])))
        ''POST''"
    using exact[of "[''GET'', ''POST'']" New "App_Group New ''/api''" "''/users''" ok_handler
        "''POST''", OF up]
    by simp
  have delete: "\<not> matches_method
        (last (router (Group_Route New (App_Group New ''/api'') ''/users'' ok_handler
                         [''GET'', ''POST''])))
        ''DELETE''"
    using exact[of "[''GET'', ''POST'']" New "App_Group New ''/api''" "''/users''" ok_handler
        "''DELETE''", OF up]
    by simp
  have any: "matches_method
        (last (router (Group_Route New (App_Group New ''/api'') ''/users'' ok_handler [])))
        ''DELETE''"
    using exact[of "[]" New "App_Group New ''/api''" "''/users''" ok_handler "''DELETE''"]
    by simp
  from up post delete any show ?thesis by blast
qed

end
